theory Spec2Isabelle
  imports Main "HOL-Library.Word"
begin

unbundle bit_operations_syntax

section \<open>Values of the JavaScript runtime\<close>

text \<open>
  An \<^verbatim>\<open>ArrayBuffer\<close> or \<^verbatim>\<open>Uint8Array\<close> is a list of bytes. A JavaScript string is
  a list of 16-bit code units (\<^verbatim>\<open>charCodeAt\<close> reads one, \<^verbatim>\<open>length\<close> counts them).
  A JavaScript number that holds a size, an offset or a sample rate is a natural number;
  the conversions of the typed-array writers (\<^verbatim>\<open>ToUint8\<close>, \<^verbatim>\<open>ToUint16\<close>,
  \<^verbatim>\<open>ToUint32\<close>) are written out as \<open>mod\<close>.
\<close>

type_synonym byte = "8 word"
type_synonym bytes = "byte list"
type_synonym jsstring = "16 word list"

text \<open>
  The exceptions the two files can raise, named as the platform names them:
  \<^verbatim>\<open>atob\<close> and \<^verbatim>\<open>btoa\<close> throw \<open>InvalidCharacterError\<close>,
  \<^verbatim>\<open>crypto.subtle.decrypt\<close> rejects with \<open>OperationError\<close>, and an access outside
  a typed array or \<^verbatim>\<open>DataView\<close> throws \<open>RangeError\<close>. Neither file catches or
  renames an exception, so these are the only error values its callers can tell apart.
\<close>

datatype error = InvalidCharacterError | OperationError | RangeError

fun bind_e :: "error + 'a \<Rightarrow> ('a \<Rightarrow> error + 'b) \<Rightarrow> error + 'b" where
  "bind_e (Inl e) f = Inl e"
| "bind_e (Inr x) f = f x"

definition ascii :: "string \<Rightarrow> jsstring" where
  "ascii s = map of_char s"

text \<open>
  Writing the bytes \<open>bs\<close> into a buffer from position \<open>byteOffset\<close> on, as
  \<^verbatim>\<open>TypedArray.prototype.set\<close> and the \<^verbatim>\<open>DataView\<close> setters do: the write
  throws \<open>RangeError\<close> unless it fits.
\<close>

definition write_bytes :: "bytes \<Rightarrow> nat \<Rightarrow> bytes \<Rightarrow> error + bytes" where
  "write_bytes view byteOffset bs =
     (if byteOffset + length bs \<le> length view
      then Inr (take byteOffset view @ bs @ drop (byteOffset + length bs) view)
      else Inl RangeError)"

section \<open>index.js: the PCM framer\<close>

subsection \<open>DataView\<close>

text \<open>
  A \<^verbatim>\<open>DataView\<close> over a whole buffer is the buffer's byte list. Every accessor
  throws \<open>RangeError\<close> when the accessed bytes do not lie inside the view.
\<close>

definition getUint8 :: "bytes \<Rightarrow> nat \<Rightarrow> error + nat" where
  "getUint8 view byteOffset =
     (if byteOffset < length view then Inr (unat (view ! byteOffset)) else Inl RangeError)"

definition setUint8 :: "bytes \<Rightarrow> nat \<Rightarrow> nat \<Rightarrow> error + bytes" where
  "setUint8 view byteOffset v = write_bytes view byteOffset [of_nat (v mod 256)]"

definition uint16_bytes :: "nat \<Rightarrow> bool \<Rightarrow> bytes" where
  "uint16_bytes v littleEndian =
     (let n = v mod 2 ^ 16;
          le = [of_nat (n mod 256), of_nat (n div 256)]
      in if littleEndian then le else rev le)"

definition uint32_bytes :: "nat \<Rightarrow> bool \<Rightarrow> bytes" where
  "uint32_bytes v littleEndian =
     (let n = v mod 2 ^ 32;
          le = [of_nat (n mod 256), of_nat (n div 256 mod 256),
                of_nat (n div 65536 mod 256), of_nat (n div 16777216)]
      in if littleEndian then le else rev le)"

definition setUint16 :: "bytes \<Rightarrow> nat \<Rightarrow> nat \<Rightarrow> bool \<Rightarrow> error + bytes" where
  "setUint16 view byteOffset v littleEndian =
     write_bytes view byteOffset (uint16_bytes v littleEndian)"

definition setUint32 :: "bytes \<Rightarrow> nat \<Rightarrow> nat \<Rightarrow> bool \<Rightarrow> error + bytes" where
  "setUint32 view byteOffset v littleEndian =
     write_bytes view byteOffset (uint32_bytes v littleEndian)"

text \<open>The unsigned number a run of bytes holds when read in little-endian order.\<close>

fun uint_le :: "bytes \<Rightarrow> nat" where
  "uint_le [] = 0"
| "uint_le (b # bs) = unat b + 256 * uint_le bs"

definition uint16_at :: "bytes \<Rightarrow> nat \<Rightarrow> nat" where
  "uint16_at bs offset = uint_le (take 2 (drop offset bs))"

definition uint32_at :: "bytes \<Rightarrow> nat \<Rightarrow> nat" where
  "uint32_at bs offset = uint_le (take 4 (drop offset bs))"

subsection \<open>writeString and pcmToWav\<close>

text \<open>\<^verbatim>\<open>writeString\<close>: one \<^verbatim>\<open>setUint8\<close> per code unit of the string.\<close>

fun writeString :: "bytes \<Rightarrow> nat \<Rightarrow> jsstring \<Rightarrow> error + bytes" where
  "writeString view offset [] = Inr view"
| "writeString view offset (c # cs) =
     bind_e (setUint8 view offset (unat c)) (\<lambda>view'. writeString view' (offset + 1) cs)"

text \<open>
  An \<^verbatim>\<open>Int16Array\<close>: a window of \<open>len\<close> 16-bit elements that starts \<open>byteOffset\<close>
  bytes into its \<open>buffer\<close>. \<^verbatim>\<open>pcmToWav\<close> reads the properties \<^verbatim>\<open>byteLength\<close>
  and \<^verbatim>\<open>buffer\<close> only. The runtime keeps every typed array inside its buffer
  (\<open>int16array_ok\<close>).
\<close>

record int16array =
  buffer :: bytes
  byteOffset :: nat
  len :: nat

definition byteLength :: "int16array \<Rightarrow> nat" where
  "byteLength a = 2 * len a"

definition int16array_ok :: "int16array \<Rightarrow> bool" where
  "int16array_ok a \<longleftrightarrow> byteOffset a + byteLength a \<le> length (buffer a)"

text \<open>The bytes of the samples the array holds.\<close>

definition sample_bytes :: "int16array \<Rightarrow> bytes" where
  "sample_bytes a = take (byteLength a) (drop (byteOffset a) (buffer a))"

text \<open>\<^verbatim>\<open>new Int16Array(buf)\<close>, as the caller \<^verbatim>\<open>generateSpeech\<close> builds its argument.\<close>

definition Int16Array :: "bytes \<Rightarrow> error + int16array" where
  "Int16Array buf =
     (if length buf mod 2 = 0
      then Inr \<lparr>buffer = buf, byteOffset = 0, len = length buf div 2\<rparr>
      else Inl RangeError)"

record blob =
  blob_bytes :: bytes
  blob_type :: string

text \<open>
  The copy loop of \<^verbatim>\<open>pcmToWav\<close>:
  \<^verbatim>\<open>for (let i = 0; i < dataLength; i++) view.setUint8(44 + i, dataView.getUint8(i))\<close>.
\<close>

function copy_pcm :: "nat \<Rightarrow> nat \<Rightarrow> bytes \<Rightarrow> bytes \<Rightarrow> error + bytes" where
  "copy_pcm i dataLength dataView view =
     (if i < dataLength
      then bind_e (getUint8 dataView i) (\<lambda>b.
           bind_e (setUint8 view (44 + i) b) (\<lambda>view'.
           copy_pcm (i + 1) dataLength dataView view'))
      else Inr view)"
  by pat_completeness auto
termination
  by (relation "measure (\<lambda>(i, dataLength, dataView, view). dataLength - i)") auto

definition pcmToWav :: "int16array \<Rightarrow> nat \<Rightarrow> error + blob" where
  "pcmToWav pcm16 sampleRate =
     (let numChannels = 1;
          bitsPerSample = 16;
          byteRate = sampleRate * numChannels * (bitsPerSample div 8);
          blockAlign = numChannels * (bitsPerSample div 8);
          dataLength = byteLength pcm16;
          view = replicate (44 + dataLength) (0 :: byte)
      in bind_e (writeString view 0 (ascii ''RIFF'')) (\<lambda>view.
         bind_e (setUint32 view 4 (36 + dataLength) True) (\<lambda>view.
         bind_e (writeString view 8 (ascii ''WAVE'')) (\<lambda>view.
         bind_e (writeString view 12 (ascii ''fmt '')) (\<lambda>view.
         bind_e (setUint32 view 16 16 True) (\<lambda>view.
         bind_e (setUint16 view 20 1 True) (\<lambda>view.
         bind_e (setUint16 view 22 numChannels True) (\<lambda>view.
         bind_e (setUint32 view 24 sampleRate True) (\<lambda>view.
         bind_e (setUint32 view 28 byteRate True) (\<lambda>view.
         bind_e (setUint16 view 32 blockAlign True) (\<lambda>view.
         bind_e (setUint16 view 34 bitsPerSample True) (\<lambda>view.
         bind_e (writeString view 36 (ascii ''data'')) (\<lambda>view.
         bind_e (setUint32 view 40 dataLength True) (\<lambda>view.
         bind_e (copy_pcm 0 dataLength (buffer pcm16) view) (\<lambda>view.
         Inr \<lparr>blob_bytes = view, blob_type = ''audio/wav''\<rparr>)))))))))))))))"

text \<open>The bytes of the container a call returned; none when the call threw.\<close>

definition wav_bytes :: "error + blob \<Rightarrow> bytes" where
  "wav_bytes res = (case res of Inl e \<Rightarrow> [] | Inr b \<Rightarrow> blob_bytes b)"

text \<open>
  The 44 header bytes of a container for \<open>dataLength\<close> payload bytes at rate
  \<open>sampleRate\<close>, field by field in the order of the file.
\<close>

definition wav_header :: "nat \<Rightarrow> nat \<Rightarrow> bytes" where
  "wav_header sampleRate dataLength =
     map of_char ''RIFF'' @ uint32_bytes (36 + dataLength) True @
     map of_char ''WAVE'' @
     map of_char ''fmt '' @ uint32_bytes 16 True @
     uint16_bytes 1 True @ uint16_bytes 1 True @
     uint32_bytes sampleRate True @ uint32_bytes (sampleRate * 2) True @
     uint16_bytes 2 True @ uint16_bytes 16 True @
     map of_char ''data'' @ uint32_bytes dataLength True"

section \<open>enc.js: the credential cipher\<close>

subsection \<open>btoa and atob\<close>

text \<open>
  The two base64 functions of the platform. \<^verbatim>\<open>btoa\<close> takes a string whose code units
  are all below 256 (it throws on any other) and encodes them as bytes: three bytes give
  four 6-bit groups, a last group of one or two bytes is padded with \<^verbatim>\<open>=\<close>.
\<close>

definition b64_char :: "nat \<Rightarrow> 16 word" where
  "b64_char n =
     (if n < 26 then of_nat (65 + n)
      else if n < 52 then of_nat (71 + n)
      else if n < 62 then of_nat (n - 4)
      else if n = 62 then 43
      else 47)"

fun sextets :: "bytes \<Rightarrow> nat list" where
  "sextets (a # b # c # rest) =
     [unat a div 4, unat a mod 4 * 16 + unat b div 16,
      unat b mod 16 * 4 + unat c div 64, unat c mod 64] @ sextets rest"
| "sextets [a, b] = [unat a div 4, unat a mod 4 * 16 + unat b div 16, unat b mod 16 * 4]"
| "sextets [a] = [unat a div 4, unat a mod 4 * 16]"
| "sextets [] = []"

definition base64_encode :: "bytes \<Rightarrow> jsstring" where
  "base64_encode bs =
     map b64_char (sextets bs) @ replicate ((3 - length bs mod 3) mod 3) 61"


text \<open>
  \<^verbatim>\<open>atob\<close> is the forgiving base64 decoder: it drops ASCII whitespace, drops one or
  two trailing \<^verbatim>\<open>=\<close> when the length is a multiple of four, throws when the length
  is then 1 modulo 4 or a code unit is outside the alphabet, and decodes the 6-bit groups,
  discarding the left-over low bits of a last group of two or three.
\<close>

definition b64_value :: "16 word \<Rightarrow> nat option" where
  "b64_value c =
     (let u = unat c
      in if 65 \<le> u \<and> u \<le> 90 then Some (u - 65)
         else if 97 \<le> u \<and> u \<le> 122 then Some (u - 71)
         else if 48 \<le> u \<and> u \<le> 57 then Some (u + 4)
         else if u = 43 then Some 62
         else if u = 47 then Some 63
         else None)"

definition is_ascii_whitespace :: "16 word \<Rightarrow> bool" where
  "is_ascii_whitespace c \<longleftrightarrow> c = 9 \<or> c = 10 \<or> c = 12 \<or> c = 13 \<or> c = 32"

definition strip_eq :: "jsstring \<Rightarrow> jsstring" where
  "strip_eq d = (if d \<noteq> [] \<and> last d = 61 then butlast d else d)"

fun unsextets :: "nat list \<Rightarrow> nat list" where
  "unsextets (s1 # s2 # s3 # s4 # rest) =
     [s1 * 4 + s2 div 16, s2 mod 16 * 16 + s3 div 4, s3 mod 4 * 64 + s4] @ unsextets rest"
| "unsextets [s1, s2, s3] = [s1 * 4 + s2 div 16, s2 mod 16 * 16 + s3 div 4]"
| "unsextets [s1, s2] = [s1 * 4 + s2 div 16]"
| "unsextets [s1] = []"
| "unsextets [] = []"

definition atob :: "jsstring \<Rightarrow> error + jsstring" where
  "atob data =
     (let d = filter (\<lambda>c. \<not> is_ascii_whitespace c) data;
          d = (if length d mod 4 = 0 then strip_eq (strip_eq d) else d)
      in if length d mod 4 = 1 then Inl InvalidCharacterError
         else case those (map b64_value d) of
                None \<Rightarrow> Inl InvalidCharacterError
              | Some vs \<Rightarrow> Inr (map of_nat (unsextets vs)))"

subsection \<open>TextEncoder and TextDecoder\<close>

text \<open>
  \<^verbatim>\<open>new TextEncoder().encode(s)\<close> first turns the code units into Unicode scalar
  values (a surrogate pair is one scalar value, a surrogate outside a pair becomes
  U+FFFD) and then writes each in UTF-8.
\<close>

definition is_lead :: "16 word \<Rightarrow> bool" where
  "is_lead c \<longleftrightarrow> 0xD800 \<le> unat c \<and> unat c \<le> 0xDBFF"

definition is_trail :: "16 word \<Rightarrow> bool" where
  "is_trail c \<longleftrightarrow> 0xDC00 \<le> unat c \<and> unat c \<le> 0xDFFF"

definition lone_unit :: "16 word \<Rightarrow> nat" where
  "lone_unit c = (if is_lead c \<or> is_trail c then 0xFFFD else unat c)"

fun scalar_values :: "jsstring \<Rightarrow> nat list" where
  "scalar_values [] = []"
| "scalar_values [c] = [lone_unit c]"
| "scalar_values (c # d # cs) =
     (if is_lead c \<and> is_trail d
      then (0x10000 + (unat c - 0xD800) * 0x400 + (unat d - 0xDC00)) # scalar_values cs
      else lone_unit c # scalar_values (d # cs))"


definition utf8_bytes :: "nat \<Rightarrow> bytes" where
  "utf8_bytes cp =
     (if cp < 0x80 then [of_nat cp]
      else if cp < 0x800 then [of_nat (0xC0 + cp div 64), of_nat (0x80 + cp mod 64)]
      else if cp < 0x10000
      then [of_nat (0xE0 + cp div 4096), of_nat (0x80 + cp div 64 mod 64),
            of_nat (0x80 + cp mod 64)]
      else [of_nat (0xF0 + cp div 262144), of_nat (0x80 + cp div 4096 mod 64),
            of_nat (0x80 + cp div 64 mod 64), of_nat (0x80 + cp mod 64)])"

definition TextEncoder_encode :: "jsstring \<Rightarrow> bytes" where
  "TextEncoder_encode s = concat (map utf8_bytes (scalar_values s))"

text \<open>
  \<^verbatim>\<open>new TextDecoder().decode(buf)\<close>: the UTF-8 decoder of the Encoding Standard, a
  state machine that emits U+FFFD for every ill-formed sequence and never throws (the
  decoder is built without \<^verbatim>\<open>fatal\<close>). Since it is also built without
  \<^verbatim>\<open>ignoreBOM\<close>, a byte order mark EF BB BF at the start of the input is dropped.
  The scalar values go back to code units, those above U+FFFF as a surrogate pair.
\<close>

record utf8_state =
  code_point :: nat
  bytes_seen :: nat
  bytes_needed :: nat
  lower_boundary :: nat
  upper_boundary :: nat

definition utf8_init :: utf8_state where
  "utf8_init = \<lparr>code_point = 0, bytes_seen = 0, bytes_needed = 0,
                lower_boundary = 0x80, upper_boundary = 0xBF\<rparr>"

function utf8_decode :: "utf8_state \<Rightarrow> bytes \<Rightarrow> nat list" where
  "utf8_decode st [] = (if bytes_needed st \<noteq> 0 then [0xFFFD] else [])"
| "utf8_decode st (b # bs) =
     (let v = unat b
      in if bytes_needed st = 0
         then (if v \<le> 0x7F then v # utf8_decode st bs
               else if 0xC2 \<le> v \<and> v \<le> 0xDF
               then utf8_decode (st\<lparr>bytes_needed := 1, code_point := v mod 32\<rparr>) bs
               else if 0xE0 \<le> v \<and> v \<le> 0xEF
               then utf8_decode
                      (st\<lparr>lower_boundary := (if v = 0xE0 then 0xA0 else lower_boundary st),
                          upper_boundary := (if v = 0xED then 0x9F else upper_boundary st),
                          bytes_needed := 2, code_point := v mod 16\<rparr>) bs
               else if 0xF0 \<le> v \<and> v \<le> 0xF4
               then utf8_decode
                      (st\<lparr>lower_boundary := (if v = 0xF0 then 0x90 else lower_boundary st),
                          upper_boundary := (if v = 0xF4 then 0x8F else upper_boundary st),
                          bytes_needed := 3, code_point := v mod 8\<rparr>) bs
               else 0xFFFD # utf8_decode st bs)
         else if v < lower_boundary st \<or> upper_boundary st < v
         then 0xFFFD # utf8_decode utf8_init (b # bs)
         else if bytes_seen st + 1 \<noteq> bytes_needed st
         then utf8_decode
                (st\<lparr>lower_boundary := 0x80, upper_boundary := 0xBF,
                    code_point := code_point st * 64 + v mod 64,
                    bytes_seen := bytes_seen st + 1\<rparr>) bs
         else (code_point st * 64 + v mod 64) # utf8_decode utf8_init bs)"
  by pat_completeness auto
termination
  by (relation "measure (\<lambda>(st, bs). 2 * length bs + (if bytes_needed st = 0 then 0 else 1))")
     (auto simp: utf8_init_def)

definition code_units :: "nat \<Rightarrow> jsstring" where
  "code_units cp =
     (if cp < 0x10000 then [of_nat cp]
      else [of_nat (0xD800 + (cp - 0x10000) div 0x400),
            of_nat (0xDC00 + (cp - 0x10000) mod 0x400)])"

definition TextDecoder_decode :: "bytes \<Rightarrow> jsstring" where
  "TextDecoder_decode buf =
     (let input = (if take 3 buf = [0xEF, 0xBB, 0xBF] then drop 3 buf else buf)
      in concat (map code_units (utf8_decode utf8_init input)))"



subsection \<open>The cryptographic primitives of the platform\<close>

text \<open>
  \<^verbatim>\<open>crypto.subtle\<close> supplies the hash functions and AES-GCM; they are parameters of
  the model. \<open>gcm_seal key iv plaintext\<close> is the ciphertext followed by its 128-bit tag,
  \<open>gcm_open key iv data\<close> is the plaintext when the tag verifies and \<open>None\<close> when
  it does not. A \<^verbatim>\<open>CryptoKey\<close> is its key material (the keys here are not
  extractable, so the code never sees it).
\<close>

datatype hash_alg = SHA_1 | SHA_256 | SHA_384 | SHA_512

record platform =
  digest :: "hash_alg \<Rightarrow> bytes \<Rightarrow> bytes"
  gcm_seal :: "bytes \<Rightarrow> bytes \<Rightarrow> bytes \<Rightarrow> bytes"
  gcm_open :: "bytes \<Rightarrow> bytes \<Rightarrow> bytes \<Rightarrow> bytes option"


fun block_size :: "hash_alg \<Rightarrow> nat" where
  "block_size SHA_1 = 64"
| "block_size SHA_256 = 64"
| "block_size SHA_384 = 128"
| "block_size SHA_512 = 128"

fun digest_size :: "hash_alg \<Rightarrow> nat" where
  "digest_size SHA_1 = 20"
| "digest_size SHA_256 = 32"
| "digest_size SHA_384 = 48"
| "digest_size SHA_512 = 64"

text \<open>
  PBKDF2 as \<^verbatim>\<open>crypto.subtle.deriveKey\<close> runs it (RFC 8018), with HMAC (RFC 2104) as
  its pseudorandom function: the password is the HMAC key, hashed when longer than a
  block and then filled with zero bytes to a block.
\<close>

definition hmac :: "platform \<Rightarrow> hash_alg \<Rightarrow> bytes \<Rightarrow> bytes \<Rightarrow> bytes" where
  "hmac P alg key msg =
     (let k0 = (if block_size alg < length key then digest P alg key else key);
          k = k0 @ replicate (block_size alg - length k0) 0
      in digest P alg (map (\<lambda>b. b XOR 0x5C) k @ digest P alg (map (\<lambda>b. b XOR 0x36) k @ msg)))"

definition uint32_be :: "nat \<Rightarrow> bytes" where
  "uint32_be i = uint32_bytes i False"

fun pbkdf2_rounds :: "(bytes \<Rightarrow> bytes) \<Rightarrow> nat \<Rightarrow> bytes \<Rightarrow> bytes \<Rightarrow> bytes" where
  "pbkdf2_rounds prf 0 u t = t"
| "pbkdf2_rounds prf (Suc n) u t =
     (let u' = prf u in pbkdf2_rounds prf n u' (map2 (XOR) t u'))"

definition pbkdf2_block :: "(bytes \<Rightarrow> bytes) \<Rightarrow> bytes \<Rightarrow> nat \<Rightarrow> nat \<Rightarrow> bytes" where
  "pbkdf2_block prf salt iterations i =
     (let u1 = prf (salt @ uint32_be i) in pbkdf2_rounds prf (iterations - 1) u1 u1)"

definition pbkdf2 :: "platform \<Rightarrow> hash_alg \<Rightarrow> bytes \<Rightarrow> bytes \<Rightarrow> nat \<Rightarrow> nat \<Rightarrow> bytes" where
  "pbkdf2 P alg password salt iterations dkLen =
     (let prf = hmac P alg password;
          l = (dkLen + digest_size alg - 1) div digest_size alg
      in take dkLen (concat (map (pbkdf2_block prf salt iterations) [1..<Suc l])))"


definition subtle_decrypt :: "platform \<Rightarrow> bytes \<Rightarrow> bytes \<Rightarrow> bytes \<Rightarrow> error + bytes" where
  "subtle_decrypt P key iv data =
     (if length data < 16 then Inl OperationError
      else case gcm_open P key iv data of
             None \<Rightarrow> Inl OperationError
           | Some pt \<Rightarrow> Inr pt)"



subsection \<open>The functions of enc.js\<close>

definition pbkdf2Iterations :: nat where
  "pbkdf2Iterations = 200000"

definition saltLen :: nat where
  "saltLen = 16"

definition ivLen :: nat where
  "ivLen = 12"


definition base64ToBuf :: "jsstring \<Rightarrow> error + bytes" where
  "base64ToBuf b64 = bind_e (atob b64) (\<lambda>str. Inr (map ucast str))"



definition deriveKey :: "platform \<Rightarrow> jsstring \<Rightarrow> bytes \<Rightarrow> bytes" where
  "deriveKey P password salt =
     (let passKey = TextEncoder_encode password
      in pbkdf2 P SHA_256 passKey salt pbkdf2Iterations (256 div 8))"





text \<open>
  \<^verbatim>\<open>Uint8Array.prototype.slice(start, end)\<close> for arguments that are not negative:
  both ends are clamped to the length. Without \<^verbatim>\<open>end\<close> the slice runs to the end
  of the array.
\<close>

definition slice :: "bytes \<Rightarrow> nat \<Rightarrow> nat \<Rightarrow> bytes" where
  "slice xs start endIndex =
     (let k = min start (length xs);
          final = min endIndex (length xs)
      in take (final - k) (drop k xs))"

definition decryptApiKey :: "platform \<Rightarrow> jsstring \<Rightarrow> jsstring \<Rightarrow> error + jsstring" where
  "decryptApiKey P encryptedBase64 password =
     bind_e (base64ToBuf encryptedBase64) (\<lambda>combined.
       let salt = slice combined 0 saltLen;
           iv = slice combined saltLen (saltLen + ivLen);
           ct = slice combined (saltLen + ivLen) (length combined);
           key = deriveKey P password salt
       in bind_e (subtle_decrypt P key iv ct) (\<lambda>plainBuf.
            Inr (TextDecoder_decode plainBuf)))"

subsection \<open>A small platform to run the functions on\<close>

text \<open>
  A stand-in for the primitives, simple enough to reason about: the hash keeps the last
  bytes of its input, the cipher leaves the data as it is and appends a tag made of the
  first 16 bytes of key and nonce.
\<close>

definition toy_tag :: "bytes \<Rightarrow> bytes \<Rightarrow> bytes" where
  "toy_tag key iv = take 16 (key @ iv @ replicate 16 0)"

definition toy_open :: "bytes \<Rightarrow> bytes \<Rightarrow> bytes \<Rightarrow> bytes option" where
  "toy_open key iv data =
     (if 16 \<le> length data \<and> drop (length data - 16) data = toy_tag key iv
      then Some (take (length data - 16) data)
      else None)"

definition toy_platform :: platform where
  "toy_platform =
     \<lparr>digest = (\<lambda>alg m. take (digest_size alg) (rev m @ replicate (digest_size alg) 0)),
      gcm_seal = (\<lambda>key iv pt. pt @ toy_tag key iv),
      gcm_open = toy_open\<rparr>"



section \<open>Properties of the PCM framer\<close>

subsection \<open>The writers of the DataView\<close>

lemma of_nat_mod256: "(of_nat (n mod 256) :: 8 word) = of_nat n"
  by (simp add: word_of_nat_eq_iff take_bit_eq_mod)

lemma ucast_mod256: "(of_nat (unat (c :: 16 word) mod 256) :: 8 word) = ucast c"
  by (simp add: of_nat_mod256)

lemma write_bytes_split:
  "length pre = off \<Longrightarrow> length old = length bs \<Longrightarrow>
   write_bytes (pre @ old @ post) off bs = Inr (pre @ bs @ post)"
  by (simp add: write_bytes_def)

lemma writeString_split:
  "length pre = off \<Longrightarrow> length old = length s \<Longrightarrow>
   writeString (pre @ old @ post) off s = Inr (pre @ map ucast s @ post)"
proof (induction s arbitrary: pre old off)
  case Nil
  then show ?case by simp
next
  case (Cons c cs)
  then obtain o1 olds where old: "old = o1 # olds" by (cases old) auto
  have w: "setUint8 (pre @ old @ post) off (unat c) = Inr ((pre @ [ucast c]) @ olds @ post)"
    using Cons.prems old write_bytes_split [of pre off "[o1]" "[ucast c]" "olds @ post"]
    by (simp add: setUint8_def ucast_mod256)
  have "writeString ((pre @ [ucast c]) @ olds @ post) (off + 1) cs
        = Inr ((pre @ [ucast c]) @ map ucast cs @ post)"
    by (rule Cons.IH) (use Cons.prems old in auto)
  with w show ?case by simp
qed

lemma copy_pcm_take:
  "i \<le> n \<Longrightarrow> n \<le> length src \<Longrightarrow> length view = 44 + n \<Longrightarrow>
   copy_pcm i n src view = Inr (take (44 + i) view @ take (n - i) (drop i src))"
proof (induction i n src view rule: copy_pcm.induct)
  case (1 i n src view)
  show ?case
  proof (cases "i < n")
    case False
    with "1.prems" show ?thesis by simp
  next
    case True
    have g: "getUint8 src i = Inr (unat (src ! i))"
      using True "1.prems" by (simp add: getUint8_def)
    let ?v = "take (44 + i) view @ [src ! i] @ drop (44 + i + 1) view"
    have s: "setUint8 view (44 + i) (unat (src ! i)) = Inr ?v"
      using True "1.prems" by (simp add: setUint8_def write_bytes_def of_nat_mod256)
    have "copy_pcm (i + 1) n src ?v =
            Inr (take (44 + (i + 1)) ?v @ take (n - (i + 1)) (drop (i + 1) src))"
      by (rule "1.IH" [OF True]) (use True "1.prems" in auto)
    moreover have "take (44 + (i + 1)) ?v = take (44 + i) view @ [src ! i]"
      using True "1.prems" by simp
    moreover have "take (n - i) (drop i src) = src ! i # take (n - (i + 1)) (drop (i + 1) src)"
    proof -
      have "drop i src = src ! i # drop (i + 1) src"
        using True "1.prems" by (simp add: Cons_nth_drop_Suc)
      moreover have "n - i = Suc (n - (i + 1))"
        using True by simp
      ultimately show ?thesis by (simp only: take_Suc_Cons)
    qed
    ultimately show ?thesis
      using True g s by (subst copy_pcm.simps) simp
  qed
qed

lemma replicate_44: "replicate (44 + n) (0::byte) =
  [0,0,0,0, 0,0,0,0, 0,0,0,0, 0,0,0,0, 0,0,0,0, 0,0,0,0, 0,0,0,0, 0,0,0,0, 0,0,0,0, 0,0,0,0, 0,0,0,0] @ replicate n 0"
  by (simp add: replicate_add numeral_eq_Suc)

lemma header_writes:
  "bind_e (writeString (replicate (44 + n) 0) 0 (ascii ''RIFF'')) (\<lambda>view.
         bind_e (setUint32 view 4 (36 + n) True) (\<lambda>view.
         bind_e (writeString view 8 (ascii ''WAVE'')) (\<lambda>view.
         bind_e (writeString view 12 (ascii ''fmt '')) (\<lambda>view.
         bind_e (setUint32 view 16 16 True) (\<lambda>view.
         bind_e (setUint16 view 20 1 True) (\<lambda>view.
         bind_e (setUint16 view 22 1 True) (\<lambda>view.
         bind_e (setUint32 view 24 r True) (\<lambda>view.
         bind_e (setUint32 view 28 (r * 1 * (16 div 8)) True) (\<lambda>view.
         bind_e (setUint16 view 32 (1 * (16 div 8)) True) (\<lambda>view.
         bind_e (setUint16 view 34 16 True) (\<lambda>view.
         bind_e (writeString view 36 (ascii ''data'')) (\<lambda>view.
         bind_e (setUint32 view 40 n True) (\<lambda>view. f view)))))))))))))
   = f (wav_header r n @ replicate n 0)"
  unfolding replicate_44
  by (simp add: ascii_def setUint8_def setUint32_def setUint16_def write_bytes_def
      uint32_bytes_def uint16_bytes_def wav_header_def Let_def)

lemma pcmToWav_bytes:
  assumes "int16array_ok pcm"
  shows "pcmToWav pcm r =
         Inr \<lparr>blob_bytes = wav_header r (byteLength pcm) @ take (byteLength pcm) (buffer pcm),
              blob_type = ''audio/wav''\<rparr>"
proof -
  let ?n = "byteLength pcm"
  have n: "?n \<le> length (buffer pcm)"
    using assms by (simp add: int16array_ok_def)
  have h: "length (wav_header r ?n) = 44"
    by (simp add: wav_header_def uint32_bytes_def uint16_bytes_def Let_def)
  have "copy_pcm 0 ?n (buffer pcm) (wav_header r ?n @ replicate ?n 0)
        = Inr (take (44 + 0) (wav_header r ?n @ replicate ?n 0) @ take (?n - 0) (drop 0 (buffer pcm)))"
    by (rule copy_pcm_take) (use n h in auto)
  then have c: "copy_pcm 0 ?n (buffer pcm) (wav_header r ?n @ replicate ?n 0)
        = Inr (wav_header r ?n @ take ?n (buffer pcm))"
    using h by simp
  show ?thesis
    unfolding pcmToWav_def Let_def
    by (subst header_writes) (simp only: c bind_e.simps)
qed

subsection \<open>Reading the header back\<close>

lemma uint_le_uint32_bytes: "uint_le (uint32_bytes v True) = v mod 2 ^ 32"
proof -
  define n where "n = v mod 2 ^ 32"
  have b: "n < 4294967296" by (simp add: n_def)
  have d3: "n div 16777216 < 256" using b by (simp add: less_mult_imp_div_less)
  have e1: "n div 65536 = n div 256 div 256" and e2: "n div 16777216 = n div 256 div 256 div 256"
    by (simp_all add: div_mult2_eq [symmetric])
  have "uint_le (uint32_bytes v True)
        = n mod 256 + 256 * (n div 256 mod 256 + 256 * (n div 65536 mod 256 + 256 * (n div 16777216 mod 256)))"
    by (simp add: uint32_bytes_def Let_def n_def unat_of_nat)
  also have "\<dots> = n mod 256 + 256 * (n div 256 mod 256 + 256 * (n div 65536 mod 256 + 256 * (n div 16777216)))"
    using d3 by simp
  also have "\<dots> = n"
    unfolding e1 e2 by (simp only: mod_mult_div_eq)
  finally show ?thesis by (simp add: n_def)
qed

lemma uint_le_uint16_bytes: "uint_le (uint16_bytes v True) = v mod 2 ^ 16"
proof -
  define n where "n = v mod 2 ^ 16"
  have b: "n < 65536" by (simp add: n_def)
  have "uint_le (uint16_bytes v True) = n mod 256 + 256 * (n div 256 mod 256)"
    by (simp add: uint16_bytes_def Let_def n_def unat_of_nat)
  also have "\<dots> = n" using b by simp
  finally show ?thesis by (simp add: n_def)
qed

lemma length_uint16_bytes: "length (uint16_bytes v le) = 2"
  by (simp add: uint16_bytes_def Let_def)

lemma length_uint32_bytes: "length (uint32_bytes v le) = 4"
  by (simp add: uint32_bytes_def Let_def)

lemma length_wav_header: "length (wav_header r n) = 44"
  by (simp add: wav_header_def length_uint16_bytes length_uint32_bytes)

lemma header_fields32:
  "uint32_at (wav_header r n @ p) 4 = (36 + n) mod 2 ^ 32"
  "uint32_at (wav_header r n @ p) 16 = 16"
  "uint32_at (wav_header r n @ p) 24 = r mod 2 ^ 32"
  "uint32_at (wav_header r n @ p) 28 = (r * 2) mod 2 ^ 32"
  "uint32_at (wav_header r n @ p) 40 = n mod 2 ^ 32"
  by (simp_all add: uint32_at_def wav_header_def length_uint16_bytes length_uint32_bytes
      uint_le_uint32_bytes)

lemma header_fields16:
  "uint16_at (wav_header r n @ p) 20 = 1"
  "uint16_at (wav_header r n @ p) 22 = 1"
  "uint16_at (wav_header r n @ p) 32 = 2"
  "uint16_at (wav_header r n @ p) 34 = 16"
  by (simp_all add: uint16_at_def wav_header_def length_uint16_bytes length_uint32_bytes
      uint_le_uint16_bytes)

lemma header_tags:
  "take 4 (wav_header r n @ p) = map of_char ''RIFF''"
  "take 4 (drop 8 (wav_header r n @ p)) = map of_char ''WAVE''"
  "take 4 (drop 12 (wav_header r n @ p)) = map of_char ''fmt ''"
  "take 4 (drop 36 (wav_header r n @ p)) = map of_char ''data''"
  by (simp_all add: wav_header_def length_uint16_bytes length_uint32_bytes)

text \<open>The arrays the caller builds lie inside their buffer, at offset 0.\<close>

lemma Int16Array_whole_buffer:
  assumes "Int16Array buf = Inr a"
  shows "int16array_ok a \<and> byteOffset a = 0 \<and> byteLength a = length buf \<and>
         sample_bytes a = buf"
proof -
  have e: "length buf mod 2 = 0" and a: "a = \<lparr>buffer = buf, byteOffset = 0, len = length buf div 2\<rparr>"
    using assms by (auto simp: Int16Array_def split: if_splits)
  have "2 * (length buf div 2) = length buf" using e by presburger
  then show ?thesis
    by (simp add: a int16array_ok_def byteLength_def sample_bytes_def)
qed

subsection \<open>The claims about the framer\<close>

text \<open>
  Claim C6, as the code has it. For every \<^verbatim>\<open>Int16Array\<close> of byte length \<open>L\<close> and
  every sample rate, \<^verbatim>\<open>pcmToWav\<close> returns one buffer of exactly \<open>44 + L\<close> bytes.
  Its bytes 4 to 7 hold \<open>36 + L\<close> and its bytes 40 to 43 hold \<open>L\<close> in little-endian
  order, both reduced modulo \<open>2 ^ 32\<close> by \<^verbatim>\<open>setUint32\<close>; they are \<open>36 + L\<close> and
  \<open>L\<close> themselves whenever \<open>36 + L < 2 ^ 32\<close>.
\<close>

theorem pcmToWav_size_invariant:
  assumes "int16array_ok pcm16"
  shows "\<exists>w. pcmToWav pcm16 r = Inr w \<and>
             length (blob_bytes w) = 44 + byteLength pcm16 \<and>
             uint32_at (blob_bytes w) 4 = (36 + byteLength pcm16) mod 2 ^ 32 \<and>
             uint32_at (blob_bytes w) 40 = byteLength pcm16 mod 2 ^ 32 \<and>
             (36 + byteLength pcm16 < 2 ^ 32 \<longrightarrow>
                uint32_at (blob_bytes w) 4 = 36 + byteLength pcm16 \<and>
                uint32_at (blob_bytes w) 40 = byteLength pcm16)"
proof -
  have n: "byteLength pcm16 \<le> length (buffer pcm16)"
    using assms by (simp add: int16array_ok_def)
  show ?thesis
    unfolding pcmToWav_bytes [OF assms]
    using n by (simp add: header_fields32 length_wav_header)
qed

text \<open>The theorem at two samples and 24000 Hz: 48 bytes, chunk size 40, data length 4.\<close>

theorem pcmToWav_size_invariant_witness:
  "int16array_ok \<lparr>buffer = [1, 0, 255, 127], byteOffset = 0, len = 2\<rparr> \<and>
   (\<exists>w. pcmToWav \<lparr>buffer = [1, 0, 255, 127], byteOffset = 0, len = 2\<rparr> 24000 = Inr w \<and>
        length (blob_bytes w) = 48 \<and> uint32_at (blob_bytes w) 4 = 40 \<and>
        uint32_at (blob_bytes w) 40 = 4)"
proof -
  have ok: "int16array_ok \<lparr>buffer = [1, 0, 255, 127], byteOffset = 0, len = 2\<rparr>"
    by (simp add: int16array_ok_def byteLength_def)
  show ?thesis
    using ok pcmToWav_size_invariant [OF ok, of 24000] by (auto simp: byteLength_def)
qed

text \<open>
  Claim C6 as the specification words it, without the reduction, fails for an array of
  \<open>2 ^ 32 - 36\<close> bytes: \<open>36 + L\<close> is \<open>2 ^ 32\<close> and the four bytes hold 0.
\<close>

theorem pcmToWav_chunk_size_wraps:
  "byteLength \<lparr>buffer = replicate 4294967260 0, byteOffset = 0, len = 2147483630\<rparr> = 4294967260 \<and>
   uint32_at (wav_bytes (pcmToWav \<lparr>buffer = replicate 4294967260 0, byteOffset = 0,
                                    len = 2147483630\<rparr> 24000)) 4 = 0"
proof -
  have ok: "int16array_ok \<lparr>buffer = replicate 4294967260 0, byteOffset = 0, len = 2147483630\<rparr>"
    by (simp add: int16array_ok_def byteLength_def)
  show ?thesis
    unfolding pcmToWav_bytes [OF ok]
    by (simp add: wav_bytes_def header_fields32 byteLength_def)
qed

text \<open>
  Claim C7, as the code has it. For every sample rate \<open>r\<close> and every
  \<^verbatim>\<open>Int16Array\<close>, the header of the container has byte rate \<open>2 * r\<close> modulo
  \<open>2 ^ 32\<close> (so \<open>2 * r\<close> itself for \<open>r < 2 ^ 31\<close>), block align 2, channel count 1,
  16 bits per sample and audio format 1. When the array starts at offset 0 of its buffer,
  as every array the caller builds does, the payload from offset 44 on is the bytes of
  the samples, unchanged.
\<close>

theorem pcmToWav_derived_fields:
  assumes "int16array_ok pcm16"
  shows "\<exists>w. pcmToWav pcm16 r = Inr w \<and>
             uint32_at (blob_bytes w) 28 = (2 * r) mod 2 ^ 32 \<and>
             (r < 2 ^ 31 \<longrightarrow> uint32_at (blob_bytes w) 28 = 2 * r) \<and>
             uint16_at (blob_bytes w) 32 = 2 \<and>
             uint16_at (blob_bytes w) 22 = 1 \<and>
             uint16_at (blob_bytes w) 34 = 16 \<and>
             uint16_at (blob_bytes w) 20 = 1 \<and>
             (byteOffset pcm16 = 0 \<longrightarrow> drop 44 (blob_bytes w) = sample_bytes pcm16)"
  unfolding pcmToWav_bytes [OF assms]
  by (simp add: header_fields32 header_fields16 length_wav_header sample_bytes_def mult.commute)

text \<open>The theorem at two samples and 24000 Hz: byte rate 48000, the four bytes copied.\<close>

theorem pcmToWav_derived_fields_witness:
  "int16array_ok \<lparr>buffer = [1, 0, 255, 127], byteOffset = 0, len = 2\<rparr> \<and>
   (\<exists>w. pcmToWav \<lparr>buffer = [1, 0, 255, 127], byteOffset = 0, len = 2\<rparr> 24000 = Inr w \<and>
        uint32_at (blob_bytes w) 28 = 48000 \<and> uint16_at (blob_bytes w) 32 = 2 \<and>
        drop 44 (blob_bytes w) = [1, 0, 255, 127] \<and>
        sample_bytes \<lparr>buffer = [1, 0, 255, 127], byteOffset = 0, len = 2\<rparr> = [1, 0, 255, 127])"
proof -
  have ok: "int16array_ok \<lparr>buffer = [1, 0, 255, 127], byteOffset = 0, len = 2\<rparr>"
    by (simp add: int16array_ok_def byteLength_def)
  show ?thesis
    using ok pcmToWav_derived_fields [OF ok, of 24000]
    by (auto simp: byteLength_def sample_bytes_def)
qed

text \<open>
  Claim C7 as the specification words it fails at the rate \<open>2 ^ 31\<close>, where the byte-rate
  field holds 0, and for an array that starts two bytes into its buffer, where the payload
  is the start of the buffer and not the sample.
\<close>

theorem pcmToWav_byte_rate_wraps:
  "uint32_at (wav_bytes (pcmToWav \<lparr>buffer = [], byteOffset = 0, len = 0\<rparr> 2147483648)) 28 = 0 \<and>
   drop 44 (wav_bytes (pcmToWav \<lparr>buffer = [1, 2, 3, 4], byteOffset = 2, len = 1\<rparr> 24000)) = [1, 2] \<and>
   sample_bytes \<lparr>buffer = [1, 2, 3, 4], byteOffset = 2, len = 1\<rparr> = [3, 4]"
proof -
  have ok1: "int16array_ok \<lparr>buffer = [], byteOffset = 0, len = 0\<rparr>"
    by (simp add: int16array_ok_def byteLength_def)
  have ok2: "int16array_ok \<lparr>buffer = [1, 2, 3, 4], byteOffset = 2, len = 1\<rparr>"
    by (simp add: int16array_ok_def byteLength_def)
  show ?thesis
    unfolding pcmToWav_bytes [OF ok1] pcmToWav_bytes [OF ok2]
    using header_fields32(4) [of 2147483648 0 "[]"]
    by (simp add: wav_bytes_def length_wav_header byteLength_def sample_bytes_def)
qed

text \<open>
  Claim C8. Framing an empty sample sequence at 24000 Hz does not fail: the result is a
  container of exactly 44 bytes, the header alone, whose data-length field is 0 and whose
  chunk-size field is 36.
\<close>

theorem pcmToWav_empty:
  "pcmToWav \<lparr>buffer = [], byteOffset = 0, len = 0\<rparr> 24000 =
     Inr \<lparr>blob_bytes =
            [82, 73, 70, 70, 36, 0, 0, 0, 87, 65, 86, 69,
             102, 109, 116, 32, 16, 0, 0, 0, 1, 0, 1, 0,
             192, 93, 0, 0, 128, 187, 0, 0, 2, 0, 16, 0,
             100, 97, 116, 97, 0, 0, 0, 0],
          blob_type = ''audio/wav''\<rparr> \<and>
   length (wav_bytes (pcmToWav \<lparr>buffer = [], byteOffset = 0, len = 0\<rparr> 24000)) = 44 \<and>
   uint32_at (wav_bytes (pcmToWav \<lparr>buffer = [], byteOffset = 0, len = 0\<rparr> 24000)) 40 = 0 \<and>
   uint32_at (wav_bytes (pcmToWav \<lparr>buffer = [], byteOffset = 0, len = 0\<rparr> 24000)) 4 = 36"
proof -
  have ok: "int16array_ok \<lparr>buffer = [], byteOffset = 0, len = 0\<rparr>"
    by (simp add: int16array_ok_def byteLength_def)
  have h: "wav_header 24000 0 =
            [82, 73, 70, 70, 36, 0, 0, 0, 87, 65, 86, 69,
             102, 109, 116, 32, 16, 0, 0, 0, 1, 0, 1, 0,
             192, 93, 0, 0, 128, 187, 0, 0, 2, 0, 16, 0,
             100, 97, 116, 97, 0, 0, 0, 0]"
    by (simp add: wav_header_def uint32_bytes_def uint16_bytes_def)
  show ?thesis
    unfolding pcmToWav_bytes [OF ok]
    using header_fields32(1,5) [of 24000 0 "[]"]
    by (simp add: wav_bytes_def byteLength_def h)
qed


section \<open>Properties of the credential cipher\<close>

subsection \<open>btoa and atob are inverse on bytes\<close>

lemma unat_byte_less: "unat (b :: 8 word) < 256"
  using unsigned_less [of b, where ?'a = nat] by simp

lemma ucast_8_16_8: "(ucast (ucast (b :: 8 word) :: 16 word) :: 8 word) = b"
  by (simp add: ucast_up_ucast_id is_up)
lemma unat_of_nat_16: "n < 65536 \<Longrightarrow> unat (of_nat n :: 16 word) = n"
  by (simp add: unat_of_nat)


lemma unat_b64_char:
  "unat (b64_char n) =
     (if n < 26 then 65 + n else if n < 52 then 71 + n else if n < 62 then n - 4
      else if n = 62 then 43 else 47)"
proof -
  have "unat (of_nat (65 + n) :: 16 word) = 65 + n" if "n < 26"
    by (rule unat_of_nat_16) (use that in simp)
  moreover have "unat (of_nat (71 + n) :: 16 word) = 71 + n" if "n < 52"
    by (rule unat_of_nat_16) (use that in simp)
  moreover have "unat (of_nat (n - 4) :: 16 word) = n - 4" if "n < 62"
    by (rule unat_of_nat_16) (use that in simp)
  ultimately show ?thesis
    unfolding b64_char_def by (simp del: of_nat_add of_nat_diff)
qed

lemma b64_value_char: "n < 64 \<Longrightarrow> b64_value (b64_char n) = Some n"
  unfolding b64_value_def Let_def unat_b64_char by (simp split: if_splits) arith

lemma b64_char_not_pad: "n < 64 \<Longrightarrow> b64_char n \<noteq> 61"
proof
  assume "n < 64" "b64_char n = 61"
  then have "b64_value 61 = Some n" using b64_value_char by metis
  then show False by (simp add: b64_value_def)
qed

lemma b64_char_not_space: "n < 64 \<Longrightarrow> \<not> is_ascii_whitespace (b64_char n)"
proof
  assume "n < 64" "is_ascii_whitespace (b64_char n)"
  then have "\<exists>c. is_ascii_whitespace c \<and> b64_value c = Some n" using b64_value_char by metis
  then show False by (auto simp: b64_value_def is_ascii_whitespace_def)
qed

lemma regroup1: "a < 256 \<Longrightarrow> b < 256 \<Longrightarrow> a div 4 * 4 + (a mod 4 * 16 + b div 16) div 16 = (a::nat)"
  by simp

lemma regroup2: "b < 256 \<Longrightarrow> c < 256 \<Longrightarrow>
   (a mod 4 * 16 + b div 16) mod 16 * 16 + (b mod 16 * 4 + c div 64) div 4 = (b::nat)"
  by (simp add: mod_mult2_eq)

lemma regroup3: "c < 256 \<Longrightarrow> (b mod 16 * 4 + c div 64) mod 4 * 64 + c mod 64 = (c::nat)"
  by simp

lemma sextets_less: "s \<in> set (sextets bs) \<Longrightarrow> s < 64"
proof (induction bs arbitrary: s rule: sextets.induct)
  case (1 a b c rest)
  have "unat a < 256" "unat b < 256" "unat c < 256" by (rule unat_byte_less)+
  with 1 show ?case by auto
next
  case (2 a b)
  have "unat a < 256" "unat b < 256" by (rule unat_byte_less)+
  with 2 show ?case by auto
next
  case (3 a)
  have "unat a < 256" by (rule unat_byte_less)
  with 3 show ?case by auto
qed simp

lemma unsextets_sextets: "unsextets (sextets bs) = map unat bs"
proof (induction bs rule: sextets.induct)
  case (1 a b c rest)
  have "unat a < 256" "unat b < 256" "unat c < 256" by (rule unat_byte_less)+
  with 1 show ?case by (simp add: regroup1 regroup2 regroup3)
next
  case (2 a b)
  have "unat a < 256" "unat b < 256" by (rule unat_byte_less)+
  then show ?case using regroup2 [of "unat b" 0 "unat a"] by (simp add: regroup1)
next
  case (3 a)
  have "unat a < 256" by (rule unat_byte_less)
  then show ?case using regroup1 [of "unat a" 0] by simp
qed simp

lemma length_sextets: "length (sextets bs) = (4 * length bs + 2) div 3"
  by (induction bs rule: sextets.induct) simp_all

lemma those_map_inverse:
  "(\<And>x. x \<in> set ys \<Longrightarrow> f (g x) = Some x) \<Longrightarrow> those (map f (map g ys)) = Some ys"
  by (induction ys) simp_all

lemma strip_eq_keep: "xs = [] \<or> last xs \<noteq> 61 \<Longrightarrow> strip_eq xs = xs"
  by (auto simp: strip_eq_def)

lemma strip_eq_pad: "strip_eq (xs @ [61]) = xs"
  by (simp add: strip_eq_def)

lemma strip_padding:
  assumes "xs = [] \<or> last xs \<noteq> 61" and "k \<le> 2"
  shows "strip_eq (strip_eq (xs @ replicate k 61)) = xs"
proof -
  consider "k = 0" | "k = 1" | "k = 2" using assms(2) by linarith
  then show ?thesis
  proof cases
    case 1
    then show ?thesis using assms(1) by (simp add: strip_eq_keep)
  next
    case 2
    then show ?thesis using assms(1) by (simp add: strip_eq_pad strip_eq_keep)
  next
    case 3
    then have "xs @ replicate k 61 = (xs @ [61]) @ [61]" by (simp add: numeral_2_eq_2)
    then show ?thesis by (simp only: strip_eq_pad)
  qed
qed

lemma pad_arith:
  "((4 * n + 2) div 3 + (3 - n mod 3) mod 3) mod 4 = (0::nat)"
  "(4 * n + 2) div 3 mod 4 \<noteq> (1::nat)"
  "(3 - n mod 3) mod 3 \<le> (2::nat)"
proof -
  define q r where "q = n div 3" and "r = n mod 3"
  have n: "n = 3 * q + r" and r: "r < 3" by (simp_all add: q_def r_def)
  have e: "(4 * n + 2) div 3 = 4 * q + (4 * r + 2) div 3"
    unfolding n by simp
  let ?P = "\<lambda>r::nat. ((4 * q + (4 * r + 2) div 3) + (3 - r) mod 3) mod 4 = 0 \<and>
             (4 * q + (4 * r + 2) div 3) mod 4 \<noteq> 1 \<and> (3 - r) mod 3 \<le> 2"
  have m: "(4 * q + 4) mod 4 = 0" "(4 * q + 2) mod 4 = 2" "(4 * q + 3) mod 4 = 3" "4 * q mod 4 = 0"
    using mod_mult_self4 [of 4 q 4] mod_mult_self4 [of 4 q 2] mod_mult_self4 [of 4 q 3]
    by simp_all
  have p0: "?P 0" by simp
  have p1: "?P 1" using m by (simp del: One_nat_def)
  have p2: "?P 2" using m by simp
  have "r = 0 \<or> r = 1 \<or> r = 2" using r by linarith
  then have "?P r"
  proof (elim disjE)
    assume "r = 0" with p0 show ?thesis by simp
  next
    assume "r = 1" with p1 show ?thesis by simp
  next
    assume "r = 2" with p2 show ?thesis by simp
  qed
  then show "((4 * n + 2) div 3 + (3 - n mod 3) mod 3) mod 4 = (0::nat)"
    "(4 * n + 2) div 3 mod 4 \<noteq> (1::nat)"
    "(3 - n mod 3) mod 3 \<le> (2::nat)"
    unfolding e r_def [symmetric] by simp_all
qed

lemma filter_base64_encode:
  "filter (\<lambda>c. \<not> is_ascii_whitespace c) (base64_encode bs) = base64_encode bs"
proof -
  have "\<not> is_ascii_whitespace c" if "c \<in> set (base64_encode bs)" for c
  proof -
    from that consider s where "s \<in> set (sextets bs)" "c = b64_char s" | "c = 61"
      by (auto simp: base64_encode_def)
    then show ?thesis
    proof cases
      case 1
      then show ?thesis using sextets_less b64_char_not_space by blast
    next
      case 2
      then show ?thesis by (simp add: is_ascii_whitespace_def)
    qed
  qed
  then show ?thesis by (simp add: filter_id_conv)
qed

lemma last_b64_chars:
  "map b64_char (sextets bs) = [] \<or> last (map b64_char (sextets bs)) \<noteq> 61"
proof (cases "sextets bs = []")
  case True
  then show ?thesis by simp
next
  case False
  then have "last (sextets bs) \<in> set (sextets bs)" by simp
  then have "last (sextets bs) < 64" by (rule sextets_less)
  then show ?thesis using False by (simp add: last_map b64_char_not_pad)
qed

lemma atob_base64_encode: "atob (base64_encode bs) = Inr (map ucast bs)"
proof -
  let ?xs = "map b64_char (sextets bs)"
  let ?k = "(3 - length bs mod 3) mod 3"
  have "length (base64_encode bs) = (4 * length bs + 2) div 3 + ?k"
    by (simp only: base64_encode_def length_append length_map length_sextets length_replicate)
  then have len: "length (base64_encode bs) mod 4 = 0"
    by (simp only: pad_arith)
  have strip: "strip_eq (strip_eq (base64_encode bs)) = ?xs"
    unfolding base64_encode_def by (rule strip_padding [OF last_b64_chars pad_arith(3)])
  have len': "length ?xs mod 4 \<noteq> 1"
    by (simp only: length_map length_sextets pad_arith not_False_eq_True)
  have vals: "those (map b64_value ?xs) = Some (sextets bs)"
    by (rule those_map_inverse) (simp add: sextets_less b64_value_char)
  have bytes: "map of_nat (unsextets (sextets bs)) = (map ucast bs :: 16 word list)"
    by (simp add: unsextets_sextets)
  show ?thesis
    unfolding atob_def Let_def filter_base64_encode
    using len strip len' vals bytes by simp
qed


lemma base64ToBuf_encode: "base64ToBuf (base64_encode buf) = Inr buf"
  by (simp add: base64ToBuf_def atob_base64_encode ucast_8_16_8 comp_def)

subsection \<open>TextDecoder inverts TextEncoder on well-formed strings\<close>






lemma digits2:
  fixes cp :: nat
  shows "cp = cp div 64 * 64 + cp mod 64" "cp mod 64 < 64"
  by simp_all























subsection \<open>concatBuffers, slice and the layout of the blob\<close>




lemma slice_eq: "slice xs start endIndex = take (endIndex - start) (drop start xs)"
  by (simp add: slice_def Let_def min_def)



lemma decryptApiKey_eq:
  assumes "base64ToBuf blob = Inr combined"
  shows "decryptApiKey P blob password =
           bind_e (subtle_decrypt P (deriveKey P password (take 16 combined))
                     (take 12 (drop 16 combined)) (drop 28 combined))
                  (\<lambda>plainBuf. Inr (TextDecoder_decode plainBuf))"
  by (simp add: decryptApiKey_def assms slice_eq saltLen_def ivLen_def Let_def)






subsection \<open>Keys that HMAC cannot tell apart, and decryption under the same key\<close>










subsection \<open>Errors of decryption, and blobs that differ\<close>

lemma atob_error: "atob blob = Inl e \<Longrightarrow> e = InvalidCharacterError"
  by (auto simp: atob_def Let_def split: if_splits option.splits)

lemma base64ToBuf_error: "atob blob = Inl e \<Longrightarrow> base64ToBuf blob = Inl InvalidCharacterError"
  using atob_error [of blob e] by (simp add: base64ToBuf_def)

lemma subtle_decrypt_short:
  "length data < 16 \<Longrightarrow> subtle_decrypt P key iv data = Inl OperationError"
  by (simp add: subtle_decrypt_def)

lemma subtle_decrypt_error: "subtle_decrypt P key iv data = Inl e \<Longrightarrow> e = OperationError"
  by (auto simp: subtle_decrypt_def split: if_splits option.splits)

lemma decrypt_short:
  assumes "base64ToBuf blob = Inr combined" "length combined < 44"
  shows "decryptApiKey P blob password = Inl OperationError"
  using assms(2) by (simp add: decryptApiKey_eq [OF assms(1)] subtle_decrypt_short)

lemma ten_zeros: "replicate 10 (0 :: byte) = [0, 0, 0, 0, 0, 0, 0, 0, 0, 0]"
  by (simp add: numeral_eq_Suc)

lemma base64_encode_zeros: "base64_encode (replicate 10 0) = ascii ''AAAAAAAAAAAAAA==''"
  unfolding ten_zeros
  by (simp add: base64_encode_def b64_char_def ascii_def numeral_2_eq_2)




subsection \<open>The claims about the cipher\<close>




text \<open>
  Claim C2, as the code has it. For every password and every blob,
  \<^verbatim>\<open>decryptApiKey\<close> fails with \<open>InvalidCharacterError\<close> whenever
  \<^verbatim>\<open>atob\<close> rejects the blob. When the blob decodes to fewer than 28 bytes it fails
  as well, but with \<open>OperationError\<close>, the error of a failed authentication: there is no
  length check, the empty ciphertext is rejected by the cipher. So the empty blob and the
  base64 text of ten zero bytes both fail with \<open>OperationError\<close>.
\<close>

theorem decrypt_rejects_malformed:
  "(atob blob = Inl e \<longrightarrow> decryptApiKey P blob password = Inl InvalidCharacterError) \<and>
   (base64ToBuf blob = Inr combined \<and> length combined < 28 \<longrightarrow>
      decryptApiKey P blob password = Inl OperationError) \<and>
   decryptApiKey P [] password = Inl OperationError \<and>
   decryptApiKey P (base64_encode (replicate 10 0)) password = Inl OperationError"
proof -
  have "decryptApiKey P blob password = Inl InvalidCharacterError" if "atob blob = Inl e"
    using base64ToBuf_error [OF that] by (simp add: decryptApiKey_def)
  moreover have "decryptApiKey P blob password = Inl OperationError"
    if "base64ToBuf blob = Inr combined" "length combined < 28"
    by (rule decrypt_short [OF that(1)]) (use that(2) in simp)
  moreover have "decryptApiKey P [] password = Inl OperationError"
    using base64ToBuf_encode [of "[]"]
    by (intro decrypt_short [where combined = "[]"]) (simp_all add: base64_encode_def)
  moreover have "decryptApiKey P (base64_encode (replicate 10 0)) password = Inl OperationError"
    by (rule decrypt_short [OF base64ToBuf_encode]) simp
  ultimately show ?thesis by blast
qed

text \<open>The theorem at a blob outside the alphabet and at the text of ten zero bytes.\<close>

theorem decrypt_rejects_malformed_witness:
  "atob (ascii ''!'') = Inl InvalidCharacterError \<and>
   decryptApiKey toy_platform (ascii ''!'') (ascii ''Encc1234'') = Inl InvalidCharacterError \<and>
   base64ToBuf (ascii ''AAAAAAAAAAAAAA=='') = Inr (replicate 10 0) \<and>
   length (replicate 10 (0 :: byte)) < 28 \<and>
   decryptApiKey toy_platform (ascii ''AAAAAAAAAAAAAA=='') (ascii ''Encc1234'') = Inl OperationError"
proof -
  have a: "atob (ascii ''!'') = Inl InvalidCharacterError"
    by (simp add: atob_def ascii_def is_ascii_whitespace_def)
  have b: "base64ToBuf (ascii ''AAAAAAAAAAAAAA=='') = Inr (replicate 10 0)"
    using base64ToBuf_encode [of "replicate 10 0"] by (simp only: base64_encode_zeros)
  have c: "length (replicate 10 (0 :: byte)) < 28" by simp
  show ?thesis
    using a b c
      decrypt_rejects_malformed [of "ascii ''!''" InvalidCharacterError toy_platform "ascii ''Encc1234''"]
      decrypt_rejects_malformed [of "ascii ''AAAAAAAAAAAAAA==''" _ toy_platform "ascii ''Encc1234''"
        "replicate 10 0"]
    by blast
qed

text \<open>
  Claim C2 as the specification words it fails: the two short blobs it names do not fail
  with the error of a malformed blob but with the error of a wrong password, whatever
  the platform (\<open>decrypt_short\<close>).
\<close>

theorem short_blob_fails_like_wrong_password:
  "decryptApiKey toy_platform [] (ascii ''Encc1234'') = Inl OperationError \<and>
   decryptApiKey toy_platform (ascii ''AAAAAAAAAAAAAA=='') (ascii ''Encc1234'') = Inl OperationError \<and>
   Inl OperationError \<noteq> (Inl InvalidCharacterError :: error + jsstring)"
proof -
  have "base64ToBuf [] = Inr []"
    using base64ToBuf_encode [of "[]"] by (simp add: base64_encode_def)
  then have "decryptApiKey toy_platform [] (ascii ''Encc1234'') = Inl OperationError"
    by (rule decrypt_short) simp
  moreover have "base64ToBuf (ascii ''AAAAAAAAAAAAAA=='') = Inr (replicate 10 0)"
    using base64ToBuf_encode [of "replicate 10 0"] by (simp only: base64_encode_zeros)
  then have "decryptApiKey toy_platform (ascii ''AAAAAAAAAAAAAA=='') (ascii ''Encc1234'')
             = Inl OperationError"
    by (rule decrypt_short) simp
  ultimately show ?thesis by simp
qed












end
